theory Spec2Isabelle
  imports Complex_Main "HOL-Library.Sublist"
begin

section \<open>JavaScript strings and arrays\<close>

text \<open>
  A JavaScript string is modelled as a \<^typ>\<open>string\<close>, one \<^typ>\<open>char\<close> per code unit, for the
  code units \<open>0\<close> to \<open>255\<close> (the characters U+0000 to U+00FF); strings with other code units
  are outside the model. Character classes of regular expressions are predicates on the
  code of the character.
\<close>

definition code :: "char \<Rightarrow> nat" where
  "code c = of_char c"

definition isUpper :: "char \<Rightarrow> bool" where
  "isUpper c = (65 \<le> code c \<and> code c \<le> 90)"

definition isLower :: "char \<Rightarrow> bool" where
  "isLower c = (97 \<le> code c \<and> code c \<le> 122)"

definition isDigit :: "char \<Rightarrow> bool" where
  "isDigit c = (48 \<le> code c \<and> code c \<le> 57)"

text \<open>The class \<open>[!@#$%^&*]\<close>: inside brackets every one of the eight characters is literal.\<close>

definition isSpecial :: "char \<Rightarrow> bool" where
  "isSpecial c = (c \<in> set ''!@#$%^&*'')"

text \<open>
  The white space that \<open>trim\<close> and \<open>trimStart\<close> remove: tab, line feed, vertical tab, form
  feed, carriage return, space and the no-break space U+00A0. No other character up to
  U+00FF is white space or a line terminator of the language.
\<close>

definition isWhiteSpace :: "char \<Rightarrow> bool" where
  "isWhiteSpace c = ((9 \<le> code c \<and> code c \<le> 13) \<or> code c = 32 \<or> code c = 160)"




text \<open>\<open>Array.prototype.some\<close> and \<open>Array.prototype.filter\<close>, left to right.\<close>

fun some :: "('a \<Rightarrow> bool) \<Rightarrow> 'a list \<Rightarrow> bool" where
  "some f [] = False"
| "some f (x # xs) = (if f x then True else some f xs)"


text \<open>\<open>/[...]/.test(s)\<close> for a regular expression that is one character class.\<close>

definition regex_class_test :: "(char \<Rightarrow> bool) \<Rightarrow> string \<Rightarrow> bool" where
  "regex_class_test cls s = some cls s"

text \<open>\<open>s.startsWith(t)\<close> and \<open>s.includes(t)\<close>: the search tries every start position.\<close>

fun startsWith :: "string \<Rightarrow> string \<Rightarrow> bool" where
  "startsWith s [] = True"
| "startsWith [] (y # ys) = False"
| "startsWith (x # xs) (y # ys) = (x = y \<and> startsWith xs ys)"


definition trimStart :: "string \<Rightarrow> string" where
  "trimStart s = dropWhile isWhiteSpace s"

definition trimEnd :: "string \<Rightarrow> string" where
  "trimEnd s = rev (dropWhile isWhiteSpace (rev s))"

definition trim :: "string \<Rightarrow> string" where
  "trim s = trimEnd (trimStart s)"

text \<open>
  \<open>items.slice(start, end)\<close> with integer arguments: a negative argument counts from the
  end of the array, both are clamped into \<open>0..length\<close>, and an empty range gives the
  empty array. It never throws.
\<close>

definition slice_index :: "nat \<Rightarrow> int \<Rightarrow> nat" where
  "slice_index len k = (if k < 0 then nat (max (int len + k) 0) else min (nat k) len)"

definition slice :: "'a list \<Rightarrow> int \<Rightarrow> int \<Rightarrow> 'a list" where
  "slice items start end =
     (let from = slice_index (length items) start;
          to = slice_index (length items) end
      in take (to - from) (drop from items))"

section \<open>Signup: the form and its password rules\<close>

record formData =
  firstName :: string
  lastName :: string
  email :: string
  password :: string
  confirmPassword :: string
  agreeToTerms :: bool

definition initial_formData :: formData where
  "initial_formData =
     \<lparr>firstName = [], lastName = [], email = [], password = [], confirmPassword = [],
      agreeToTerms = False\<rparr>"

text \<open>The object returned by \<open>checkPasswordRules\<close>; its \<open>length\<close> key is \<open>length_rule\<close> here.\<close>

record passwordChecks =
  length_rule :: bool
  uppercase :: bool
  lowercase :: bool
  number :: bool
  specialChar :: bool

definition checkPasswordRules :: "string \<Rightarrow> passwordChecks" where
  "checkPasswordRules pw =
     \<lparr>length_rule = (length pw \<ge> 8),
      uppercase = regex_class_test isUpper pw,
      lowercase = regex_class_test isLower pw,
      number = regex_class_test isDigit pw,
      specialChar = regex_class_test isSpecial pw\<rparr>"

text \<open>
  The five rules by name, the flag and the character class of each, and what it means for
  a password to satisfy a rule. \<open>same_outside r p q\<close> says that \<open>q\<close> is \<open>p\<close> with some
  characters replaced, none of them of the class of \<open>r\<close> before or after.
\<close>

datatype rule = Length | Uppercase | Lowercase | Number | SpecialChar

fun flag :: "rule \<Rightarrow> passwordChecks \<Rightarrow> bool" where
  "flag Length r = length_rule r"
| "flag Uppercase r = uppercase r"
| "flag Lowercase r = lowercase r"
| "flag Number r = number r"
| "flag SpecialChar r = specialChar r"

fun in_class :: "rule \<Rightarrow> char \<Rightarrow> bool" where
  "in_class Length c = False"
| "in_class Uppercase c = isUpper c"
| "in_class Lowercase c = isLower c"
| "in_class Number c = isDigit c"
| "in_class SpecialChar c = isSpecial c"

fun satisfies :: "rule \<Rightarrow> string \<Rightarrow> bool" where
  "satisfies Length pw = (8 \<le> length pw)"
| "satisfies r pw = (\<exists>c \<in> set pw. in_class r c)"

definition same_outside :: "rule \<Rightarrow> string \<Rightarrow> string \<Rightarrow> bool" where
  "same_outside r p q =
     list_all2 (\<lambda>a b. a \<noteq> b \<longrightarrow> \<not> in_class r a \<and> \<not> in_class r b) p q"

subsection \<open>Change handlers\<close>

text \<open>
  \<open>handleChange\<close> writes the field named by the input element. The form wires it to
  the text inputs \<open>firstName\<close>, \<open>lastName\<close> and \<open>email\<close>; the password input is wired to
  \<open>handlePasswordChange\<close> and the confirmation input to \<open>handleConfirmPasswordChange\<close>.
\<close>

datatype text_field = FirstName | LastName | Email

fun handleChange :: "text_field \<Rightarrow> string \<Rightarrow> formData \<Rightarrow> formData" where
  "handleChange FirstName v prev = prev\<lparr>firstName := v\<rparr>"
| "handleChange LastName v prev = prev\<lparr>lastName := v\<rparr>"
| "handleChange Email v prev = prev\<lparr>email := v\<rparr>"

definition handlePasswordChange :: "string \<Rightarrow> formData \<Rightarrow> formData" where
  "handlePasswordChange v prev =
     (let input = (if startsWith v '' '' then trimStart v else v)
      in prev\<lparr>password := input\<rparr>)"

definition handleConfirmPasswordChange :: "string \<Rightarrow> formData \<Rightarrow> formData" where
  "handleConfirmPasswordChange v prev = prev\<lparr>confirmPassword := v\<rparr>"

datatype form_event =
  Change text_field string
| PasswordChange string
| ConfirmPasswordChange string

fun form_step :: "form_event \<Rightarrow> formData \<Rightarrow> formData" where
  "form_step (Change f v) fd = handleChange f v fd"
| "form_step (PasswordChange v) fd = handlePasswordChange v fd"
| "form_step (ConfirmPasswordChange v) fd = handleConfirmPasswordChange v fd"

text \<open>The form data after a sequence of input events, starting from the initial form.\<close>

definition form_after :: "form_event list \<Rightarrow> formData" where
  "form_after evs = fold form_step evs initial_formData"

subsection \<open>Submission\<close>

text \<open>
  The backend call \<open>authService.signup(name, email, password)\<close> either resolves with a
  response or rejects with an error whose \<open>message\<close> may be missing. The \<open>user\<close> of a
  response stands for its JSON text, which is what the handler stores.
\<close>

record signup_response =
  user :: string
  token :: string

datatype signup_outcome = Resolves signup_response | Rejects "string option"

record signup_view =
  form :: formData
  error :: string
  isLoading :: bool
  navigated :: "string option"
  localStorage :: "string \<rightharpoonup> string"
  signup_calls :: "(string \<times> string \<times> string) list"

definition initial_signup_view :: signup_view where
  "initial_signup_view =
     \<lparr>form = initial_formData, error = [], isLoading = False, navigated = None,
      localStorage = Map.empty, signup_calls = []\<rparr>"

text \<open>\<open>error.message || "Signup failed. Please try again."\<close>: a missing or empty message is falsy.\<close>

definition message_or_default :: "string option \<Rightarrow> string" where
  "message_or_default m =
     (case m of None \<Rightarrow> ''Signup failed. Please try again.''
      | Some s \<Rightarrow> if s = [] then ''Signup failed. Please try again.'' else s)"

definition handleSubmit ::
  "(string \<Rightarrow> string \<Rightarrow> string \<Rightarrow> signup_outcome) \<Rightarrow> signup_view \<Rightarrow> signup_view" where
  "handleSubmit signup v0 =
     (let v = v0\<lparr>error := []\<rparr>; fd = form v in
      if password fd \<noteq> confirmPassword fd then v\<lparr>error := ''Passwords don't match!''\<rparr>
      else if \<not> agreeToTerms fd then v\<lparr>error := ''Please agree to the terms and conditions''\<rparr>
      else
        let v1 = v\<lparr>isLoading := True\<rparr>;
            name = trim (firstName fd @ '' '' @ lastName fd);
            v2 = v1\<lparr>signup_calls := signup_calls v1 @ [(name, email fd, password fd)]\<rparr>;
            v3 = (case signup name (email fd) (password fd) of
                    Resolves response \<Rightarrow>
                      v2\<lparr>localStorage := (localStorage v2)(''user'' \<mapsto> user response,
                                                           ''token'' \<mapsto> token response),
                         navigated := Some ''/''\<rparr>
                  | Rejects m \<Rightarrow> v2\<lparr>error := message_or_default m\<rparr>)
        in v3\<lparr>isLoading := False\<rparr>)"

text \<open>
  Submission is blocked when the confirmation differs from the password or the consent flag
  is unset; \<open>signup_name\<close> is the name sent to the backend.
\<close>

definition blocked :: "formData \<Rightarrow> bool" where
  "blocked fd = (password fd \<noteq> confirmPassword fd \<or> \<not> agreeToTerms fd)"

definition signup_name :: "formData \<Rightarrow> string" where
  "signup_name fd = trim (firstName fd @ '' '' @ lastName fd)"

text \<open>A filled-in form, and a backend that rejects every signup because the email is taken.\<close>

definition example_view :: signup_view where
  "example_view =
     initial_signup_view\<lparr>form :=
       \<lparr>firstName = ''Ada'', lastName = ''Lovelace'', email = ''ada@example.org'',
        password = ''Abc1234!'', confirmPassword = ''Abc1234!'', agreeToTerms = True\<rparr>\<rparr>"

definition email_in_use :: "string \<Rightarrow> string \<Rightarrow> string \<Rightarrow> signup_outcome" where
  "email_in_use name mail pw = Rejects (Some ''Email already in use'')"

section \<open>Blog: the post filter and the interaction counters\<close>

record post =
  post_id :: nat
  title :: string
  description :: string
  category :: string
  tags :: "string list"







text \<open>Five posts to run the filter on; the title of the last has the capital U+00C9.\<close>

definition example_posts :: "post list" where
  "example_posts =
     [\<lparr>post_id = 1, title = ''Understanding Big O'', description = ''Growth of functions'',
       category = ''Theory'', tags = [''complexity'', ''analysis'']\<rparr>,
      \<lparr>post_id = 2, title = ''QuickSort in depth'', description = ''Partition schemes'',
       category = ''Sorting'', tags = [''divide and conquer'']\<rparr>,
      \<lparr>post_id = 3, title = ''Dijkstra'', description = ''Shortest paths'',
       category = ''Graphs'', tags = [''greedy'', ''Quick wins'']\<rparr>,
      \<lparr>post_id = 4, title = ''Merge sort'', description = ''Stable and not quick'',
       category = ''Sorting'', tags = []\<rparr>,
      \<lparr>post_id = 5, title = ''CAF'' @ [char_of (201 :: nat)] @ '' notes'',
       description = ''Reading list'', category = ''Theory'', tags = [''misc'']\<rparr>]"

subsection \<open>Interaction counters\<close>

record performanceMetrics =
  searchOperations :: int
  filterOperations :: int
  pageLoadTime :: "int option"
  interactions :: int

record blog_view =
  selectedCategory :: string
  searchTerm :: string
  blogPosts :: "post list"
  blogLoading :: bool
  metrics :: performanceMetrics

text \<open>The state at mount; \<open>blogLoading\<close> is the component's \<open>isLoading\<close>.\<close>

definition blog_mount :: blog_view where
  "blog_mount =
     \<lparr>selectedCategory = ''All'', searchTerm = [], blogPosts = [], blogLoading = True,
      metrics = \<lparr>searchOperations = 0, filterOperations = 0, pageLoadTime = None,
                 interactions = 0\<rparr>\<rparr>"

definition handleSearch :: "string \<Rightarrow> blog_view \<Rightarrow> blog_view" where
  "handleSearch term v =
     (let prev = metrics v in
      v\<lparr>searchTerm := term,
        metrics := prev\<lparr>searchOperations := searchOperations prev + 1,
                        interactions := interactions prev + 1\<rparr>\<rparr>)"

definition handleCategorySelect :: "string \<Rightarrow> blog_view \<Rightarrow> blog_view" where
  "handleCategorySelect cat v =
     (let prev = metrics v in
      v\<lparr>selectedCategory := cat, metrics := prev\<lparr>interactions := interactions prev + 1\<rparr>\<rparr>)"

definition trackPostInteraction :: "nat \<Rightarrow> string \<Rightarrow> blog_view \<Rightarrow> blog_view" where
  "trackPostInteraction postId action v =
     (let prev = metrics v in v\<lparr>metrics := prev\<lparr>interactions := interactions prev + 1\<rparr>\<rparr>)"

text \<open>The load timer fires once: it stores the posts and the measured load duration.\<close>

definition load_posts :: "post list \<Rightarrow> int \<Rightarrow> blog_view \<Rightarrow> blog_view" where
  "load_posts blogPostsData loadDuration v =
     (let prev = metrics v in
      v\<lparr>blogPosts := blogPostsData, blogLoading := False,
        metrics := prev\<lparr>pageLoadTime := Some loadDuration\<rparr>\<rparr>)"

text \<open>
  The effect that counts filter operations has the dependencies \<open>blogPosts\<close>,
  \<open>selectedCategory\<close>, \<open>searchTerm\<close> and \<open>isLoading\<close>: after a render it runs when one of
  them differs from the render before, and does nothing while the posts are loading.
\<close>

definition filter_deps :: "blog_view \<Rightarrow> post list \<times> string \<times> string \<times> bool" where
  "filter_deps v = (blogPosts v, selectedCategory v, searchTerm v, blogLoading v)"

definition filter_effect :: "blog_view \<Rightarrow> blog_view" where
  "filter_effect v =
     (if blogLoading v then v
      else let prev = metrics v in
        v\<lparr>metrics := prev\<lparr>filterOperations := filterOperations prev + 1\<rparr>\<rparr>)"

definition after_render :: "blog_view \<Rightarrow> blog_view \<Rightarrow> blog_view" where
  "after_render before v = (if filter_deps v \<noteq> filter_deps before then filter_effect v else v)"

datatype blog_event =
  Search string
| CategorySelect string
| PostInteraction nat string
| PostsLoaded "post list" int

fun blog_handler :: "blog_event \<Rightarrow> blog_view \<Rightarrow> blog_view" where
  "blog_handler (Search term) v = handleSearch term v"
| "blog_handler (CategorySelect cat) v = handleCategorySelect cat v"
| "blog_handler (PostInteraction postId action) v = trackPostInteraction postId action v"
| "blog_handler (PostsLoaded blogPostsData loadDuration) v = load_posts blogPostsData loadDuration v"

definition blog_step :: "blog_event \<Rightarrow> blog_view \<Rightarrow> blog_view" where
  "blog_step ev v = after_render v (blog_handler ev v)"

text \<open>The view after a sequence of events; the effect of the first render finds the posts loading.\<close>

definition blog_after :: "blog_event list \<Rightarrow> blog_view" where
  "blog_after evs = fold blog_step evs (filter_effect blog_mount)"

text \<open>The three counters of a view, and their pointwise order.\<close>

definition counters :: "blog_view \<Rightarrow> int list" where
  "counters v =
     [searchOperations (metrics v), filterOperations (metrics v), interactions (metrics v)]"

definition counters_le :: "blog_view \<Rightarrow> blog_view \<Rightarrow> bool" where
  "counters_le v w =
     (searchOperations (metrics v) \<le> searchOperations (metrics w) \<and>
      filterOperations (metrics v) \<le> filterOperations (metrics w) \<and>
      interactions (metrics v) \<le> interactions (metrics w))"

section \<open>QuizStart: the topic carousel\<close>

record topic =
  topic_id :: string
  topic_name :: string
  topic_description :: string

definition allTopics :: "topic list \<Rightarrow> topic list" where
  "allTopics topics =
     topics @ [\<lparr>topic_id = ''all'', topic_name = ''All Topics'',
                 topic_description = ''Questions from every category.''\<rparr>]"

text \<open>
  \<open>Math.ceil(items.length / pageSize)\<close> for a positive page size, in integer arithmetic,
  and the window \<open>items.slice(pageIndex * pageSize, (pageIndex + 1) * pageSize)\<close>.
\<close>

definition totalPages :: "nat \<Rightarrow> 'a list \<Rightarrow> nat" where
  "totalPages pageSize items = (length items + pageSize - 1) div pageSize"

definition page :: "nat \<Rightarrow> 'a list \<Rightarrow> int \<Rightarrow> 'a list" where
  "page pageSize items pageIndex =
     slice items (pageIndex * int pageSize) ((pageIndex + 1) * int pageSize)"

definition CARDS_PER_PAGE :: nat where
  "CARDS_PER_PAGE = 3"

definition totalTopicPages :: "topic list \<Rightarrow> nat" where
  "totalTopicPages topics = totalPages CARDS_PER_PAGE (allTopics topics)"

definition displayedTopics :: "topic list \<Rightarrow> int \<Rightarrow> topic list" where
  "displayedTopics topics topicPage = page CARDS_PER_PAGE (allTopics topics) topicPage"

definition handleTopicNav :: "int \<Rightarrow> int \<Rightarrow> int" where
  "handleTopicNav direction p = p + direction"

text \<open>
  A navigation button is rendered when there is more than one page, and is disabled at
  its boundary; a click on a button that is absent or disabled reaches no handler.
\<close>

definition prev_enabled :: "topic list \<Rightarrow> int \<Rightarrow> bool" where
  "prev_enabled topics topicPage = (totalTopicPages topics > 1 \<and> \<not> topicPage = 0)"

definition next_enabled :: "topic list \<Rightarrow> int \<Rightarrow> bool" where
  "next_enabled topics topicPage =
     (totalTopicPages topics > 1 \<and> \<not> topicPage \<ge> int (totalTopicPages topics) - 1)"

datatype nav_event = ClickPrevious | ClickNext

fun nav_step :: "topic list \<Rightarrow> nav_event \<Rightarrow> int \<Rightarrow> int" where
  "nav_step topics ClickPrevious topicPage =
     (if prev_enabled topics topicPage then handleTopicNav (- 1) topicPage else topicPage)"
| "nav_step topics ClickNext topicPage =
     (if next_enabled topics topicPage then handleTopicNav 1 topicPage else topicPage)"

text \<open>The page index after a sequence of clicks, starting from \<open>topicPage = 0\<close>.\<close>

definition topicPage_after :: "topic list \<Rightarrow> nav_event list \<Rightarrow> int" where
  "topicPage_after topics evs = fold (nav_step topics) evs 0"

text \<open>Six topics, which the carousel shows with the entry for all topics as seven cards.\<close>

definition six_topics :: "topic list" where
  "six_topics =
     map (\<lambda>s. \<lparr>topic_id = s, topic_name = s, topic_description = []\<rparr>)
       [''sorting'', ''searching'', ''graphs'', ''trees'', ''dp'', ''strings'']"

section \<open>Contribute: repository statistics\<close>

record repoStats =
  stars :: int
  forks :: int
  issues :: int
  contributors :: int

text \<open>The body of the response; a count that is absent is \<open>None\<close>.\<close>

record repo_data =
  stargazers_count :: "int option"
  forks_count :: "int option"
  open_issues_count :: "int option"

text \<open>
  \<open>fetch\<close> throws on a network error or gives a response with its \<open>ok\<close> flag;
  \<open>response.json()\<close> throws on a malformed body, and a body that is \<open>null\<close> has no
  properties to read.
\<close>

datatype json_outcome = Json_throws | Json_null | Json_object repo_data

datatype fetch_outcome = Fetch_throws | Response bool json_outcome

datatype js_exception = NetworkError | SyntaxError | TypeError

record contribute_view =
  stats :: repoStats
  console_log :: nat
  console_error :: "js_exception list"

definition initial_contribute_view :: contribute_view where
  "initial_contribute_view =
     \<lparr>stats = \<lparr>stars = 0, forks = 0, issues = 0, contributors = 0\<rparr>,
      console_log = 0, console_error = []\<rparr>"

text \<open>\<open>count || 0\<close>: an absent count and the count zero are both falsy.\<close>

definition or_zero :: "int option \<Rightarrow> int" where
  "or_zero count = (case count of None \<Rightarrow> 0 | Some n \<Rightarrow> if n = 0 then 0 else n)"

text \<open>The \<open>try\<close> block: \<open>Inl\<close> is the exception thrown, with the view as it was when thrown.\<close>

definition fetchRepoStats_try ::
  "fetch_outcome \<Rightarrow> contribute_view \<Rightarrow> (js_exception \<times> contribute_view) + contribute_view" where
  "fetchRepoStats_try outcome v =
     (case outcome of
        Fetch_throws \<Rightarrow> Inl (NetworkError, v)
      | Response ok body \<Rightarrow>
          if ok then
            (case body of
               Json_throws \<Rightarrow> Inl (SyntaxError, v)
             | Json_null \<Rightarrow> Inl (TypeError, v\<lparr>console_log := console_log v + 1\<rparr>)
             | Json_object data \<Rightarrow>
                 Inr (v\<lparr>console_log := console_log v + 1,
                        stats := \<lparr>stars = or_zero (stargazers_count data),
                                  forks = or_zero (forks_count data),
                                  issues = or_zero (open_issues_count data),
                                  contributors = 0\<rparr>\<rparr>))
          else Inr v)"

text \<open>
  The whole function: the \<open>catch\<close> clause logs the exception, so the result is \<open>Inr\<close> on
  every path that the function completes normally.
\<close>

definition fetchRepoStats :: "fetch_outcome \<Rightarrow> contribute_view \<Rightarrow> js_exception + contribute_view" where
  "fetchRepoStats outcome v =
     (case fetchRepoStats_try outcome v of
        Inl (e, v') \<Rightarrow> Inr (v'\<lparr>console_error := console_error v' @ [e]\<rparr>)
      | Inr v' \<Rightarrow> Inr v')"

text \<open>The count shown for a field of the response: zero when the field is absent.\<close>

definition count_or_default :: "int option \<Rightarrow> int" where
  "count_or_default count = (case count of None \<Rightarrow> 0 | Some n \<Rightarrow> n)"

section \<open>Properties of the string and array operations\<close>

lemma some_iff: "some f xs = (\<exists>x \<in> set xs. f x)"
  by (induction xs) simp_all




lemma startsWith_space: "startsWith s '' '' = (s \<noteq> [] \<and> hd s = CHR '' '')"
  by (cases s) simp_all

lemma isWhiteSpace_space: "isWhiteSpace (CHR '' '')"
  by (simp add: isWhiteSpace_def code_def)








lemma isWhiteSpace_codes: "isWhiteSpace c \<longleftrightarrow> code c \<in> {9, 10, 11, 12, 13, 32, 160}"
  unfolding isWhiteSpace_def by (simp del: One_nat_def) arith

section \<open>Password rules\<close>

text \<open>
  Claim C5. For every password, \<open>checkPasswordRules\<close> returns the five flags, each one a
  predicate of its own over the string as it is: the length is at least 8, and some character
  is an upper-case letter, a lower-case letter, a digit, one of \<open>!@#$%^&*\<close>. The password
  \<open>Abc1234!\<close> sets all five flags; \<open>abcdefgh\<close> sets the length and lower-case flags only.
\<close>

theorem checkPasswordRules_flags:
  "checkPasswordRules pw =
     \<lparr>length_rule = (8 \<le> length pw),
      uppercase = (\<exists>c \<in> set pw. isUpper c),
      lowercase = (\<exists>c \<in> set pw. isLower c),
      number = (\<exists>c \<in> set pw. isDigit c),
      specialChar = (\<exists>c \<in> set pw. c \<in> set ''!@#$%^&*'')\<rparr> \<and>
   checkPasswordRules ''Abc1234!'' =
     \<lparr>length_rule = True, uppercase = True, lowercase = True, number = True,
      specialChar = True\<rparr> \<and>
   checkPasswordRules ''abcdefgh'' =
     \<lparr>length_rule = True, uppercase = False, lowercase = True, number = False,
      specialChar = False\<rparr>"
proof (intro conjI)
  show "checkPasswordRules pw =
     \<lparr>length_rule = (8 \<le> length pw),
      uppercase = (\<exists>c \<in> set pw. isUpper c),
      lowercase = (\<exists>c \<in> set pw. isLower c),
      number = (\<exists>c \<in> set pw. isDigit c),
      specialChar = (\<exists>c \<in> set pw. c \<in> set ''!@#$%^&*'')\<rparr>"
    by (simp add: checkPasswordRules_def regex_class_test_def some_iff isSpecial_def)
  show "checkPasswordRules ''Abc1234!'' =
     \<lparr>length_rule = True, uppercase = True, lowercase = True, number = True,
      specialChar = True\<rparr>"
    by code_simp
  show "checkPasswordRules ''abcdefgh'' =
     \<lparr>length_rule = True, uppercase = False, lowercase = True, number = False,
      specialChar = False\<rparr>"
    by code_simp
qed

theorem checkPasswordRules_flags_witness:
  "number (checkPasswordRules ''hunter2'') \<and> \<not> length_rule (checkPasswordRules ''hunter2'')"
  using checkPasswordRules_flags [of "''hunter2''"]
  by (simp add: isDigit_def code_def)


lemma flag_satisfies: "flag r (checkPasswordRules pw) = satisfies r pw"
  by (cases r) (simp_all add: checkPasswordRules_def regex_class_test_def some_iff)

lemma same_outside_class:
  "list_all2 (\<lambda>a b. a \<noteq> b \<longrightarrow> \<not> P a \<and> \<not> P b) p q \<Longrightarrow>
   (\<exists>c \<in> set p. P c) = (\<exists>c \<in> set q. P c)"
  by (induction p q rule: list_all2_induct) auto

lemma same_outside_satisfies: "same_outside r p q \<Longrightarrow> satisfies r p = satisfies r q"
proof (cases r)
  case Length
  assume "same_outside r p q"
  then have "length p = length q"
    by (simp add: same_outside_def list_all2_lengthD)
  with Length show ?thesis by simp
qed (auto simp: same_outside_def dest: same_outside_class)

text \<open>
  Claim C6. The flags are independent. Two passwords that agree on whether a rule is
  satisfied (a character of the class is present; for the length rule, the length is at
  least 8) have the same flag for that rule. And replacing characters of a password, its
  length kept, leaves the flag of every rule unchanged whose class none of the replaced or
  replacing characters belongs to.
\<close>

theorem checkPasswordRules_independent:
  "(satisfies r p = satisfies r q \<longrightarrow>
      flag r (checkPasswordRules p) = flag r (checkPasswordRules q)) \<and>
   (same_outside r p q \<longrightarrow>
      flag r (checkPasswordRules p) = flag r (checkPasswordRules q))"
  by (simp add: flag_satisfies same_outside_satisfies)

theorem checkPasswordRules_independent_witness:
  "satisfies Uppercase ''Abc1234!'' = satisfies Uppercase ''Xyz98765?'' \<and>
   uppercase (checkPasswordRules ''Abc1234!'') = uppercase (checkPasswordRules ''Xyz98765?'') \<and>
   same_outside Number ''Abc1234!'' ''xyZ1234#'' \<and>
   number (checkPasswordRules ''Abc1234!'') = number (checkPasswordRules ''xyZ1234#'')"
proof -
  have a: "satisfies Uppercase ''Abc1234!'' = satisfies Uppercase ''Xyz98765?''"
    by code_simp
  have b: "same_outside Number ''Abc1234!'' ''xyZ1234#''"
    by code_simp
  from a b checkPasswordRules_independent [of Uppercase "''Abc1234!''" "''Xyz98765?''"]
    checkPasswordRules_independent [of Number "''Abc1234!''" "''xyZ1234#''"]
  show ?thesis by simp
qed

section \<open>The password field\<close>

lemma handlePasswordChange_no_space:
  "\<not> startsWith (password (handlePasswordChange v fd)) '' ''"
proof (cases "startsWith v '' ''")
  case True
  have "dropWhile isWhiteSpace v = [] \<or> \<not> isWhiteSpace (hd (dropWhile isWhiteSpace v))"
    using hd_dropWhile [of isWhiteSpace v] by blast
  then have "\<not> startsWith (dropWhile isWhiteSpace v) '' ''"
    using isWhiteSpace_space by (auto simp: startsWith_space)
  with True show ?thesis
    by (simp add: handlePasswordChange_def trimStart_def)
next
  case False
  then show ?thesis
    by (simp add: handlePasswordChange_def)
qed

lemma form_step_no_space:
  "\<not> startsWith (password fd) '' '' \<Longrightarrow> \<not> startsWith (password (form_step ev fd)) '' ''"
proof (cases ev)
  case (Change f v)
  assume "\<not> startsWith (password fd) '' ''"
  with Change show ?thesis by (cases f) simp_all
next
  case (PasswordChange v)
  then show ?thesis by (simp add: handlePasswordChange_no_space)
next
  case (ConfirmPasswordChange v)
  assume "\<not> startsWith (password fd) '' ''"
  with ConfirmPasswordChange show ?thesis by (simp add: handleConfirmPasswordChange_def)
qed

lemma fold_form_step_no_space:
  "\<not> startsWith (password fd) '' '' \<Longrightarrow>
   \<not> startsWith (password (fold form_step evs fd)) '' ''"
  by (induction evs arbitrary: fd) (simp_all add: form_step_no_space)

lemma trimStart_strips:
  "\<exists>ws. v = ws @ trimStart v \<and> (\<forall>c \<in> set ws. isWhiteSpace c) \<and>
        (trimStart v = [] \<or> \<not> isWhiteSpace (hd (trimStart v)))"
proof -
  have "v = takeWhile isWhiteSpace v @ trimStart v"
    by (simp add: trimStart_def)
  moreover have "\<forall>c \<in> set (takeWhile isWhiteSpace v). isWhiteSpace c"
    by (auto dest: set_takeWhileD)
  moreover have "trimStart v = [] \<or> \<not> isWhiteSpace (hd (trimStart v))"
    unfolding trimStart_def using hd_dropWhile [of isWhiteSpace v] by blast
  ultimately show ?thesis by blast
qed

text \<open>
  Claim C10. The password held in the form never begins with a space, whatever input events
  the form has processed. When the typed value starts with a space, \<open>handlePasswordChange\<close> stores
  it with all its leading white space removed, that is every leading tab, line feed,
  vertical tab, form feed, carriage return, space and no-break space; otherwise it stores
  the value as typed.
\<close>

theorem password_never_starts_with_space:
  "\<not> startsWith (password (form_after evs)) '' '' \<and>
   (startsWith v '' '' \<longrightarrow>
      (\<exists>ws. v = ws @ password (handlePasswordChange v fd) \<and>
            (\<forall>c \<in> set ws. code c \<in> {9, 10, 11, 12, 13, 32, 160}) \<and>
            (password (handlePasswordChange v fd) = [] \<or>
             code (hd (password (handlePasswordChange v fd))) \<notin> {9, 10, 11, 12, 13, 32, 160}))) \<and>
   (\<not> startsWith v '' '' \<longrightarrow> password (handlePasswordChange v fd) = v)"
proof (intro conjI impI)
  show "\<not> startsWith (password (form_after evs)) '' ''"
    unfolding form_after_def
    by (rule fold_form_step_no_space) (simp add: initial_formData_def)
next
  assume "startsWith v '' ''"
  then have "password (handlePasswordChange v fd) = trimStart v"
    by (simp add: handlePasswordChange_def)
  with trimStart_strips [of v]
  show "\<exists>ws. v = ws @ password (handlePasswordChange v fd) \<and>
            (\<forall>c \<in> set ws. code c \<in> {9, 10, 11, 12, 13, 32, 160}) \<and>
            (password (handlePasswordChange v fd) = [] \<or>
             code (hd (password (handlePasswordChange v fd))) \<notin> {9, 10, 11, 12, 13, 32, 160})"
    by (simp only: isWhiteSpace_codes)
next
  assume "\<not> startsWith v '' ''"
  then show "password (handlePasswordChange v fd) = v"
    by (simp add: handlePasswordChange_def)
qed

theorem password_never_starts_with_space_witness:
  "startsWith (CHR '' '' # char_of (160 :: nat) # '' Abc 1'') '' '' \<and>
   password (handlePasswordChange (CHR '' '' # char_of (160 :: nat) # '' Abc 1'')
     initial_formData) = ''Abc 1'' \<and>
   \<not> startsWith (password (form_after [Change Email ''a@b.c'',
        PasswordChange (CHR '' '' # char_of (160 :: nat) # '' Abc 1''),
        ConfirmPasswordChange '' Abc 1''])) '' ''"
proof -
  have a: "startsWith (CHR '' '' # char_of (160 :: nat) # '' Abc 1'') '' ''"
    by simp
  have b: "password (handlePasswordChange (CHR '' '' # char_of (160 :: nat) # '' Abc 1'')
     initial_formData) = ''Abc 1''"
    by code_simp
  note t = password_never_starts_with_space
      [of "[Change Email ''a@b.c'',
            PasswordChange (CHR '' '' # char_of (160 :: nat) # '' Abc 1''),
            ConfirmPasswordChange '' Abc 1'']"
          "CHR '' '' # char_of (160 :: nat) # '' Abc 1''" initial_formData]
  from t have c: "\<not> startsWith (password (form_after [Change Email ''a@b.c'',
        PasswordChange (CHR '' '' # char_of (160 :: nat) # '' Abc 1''),
        ConfirmPasswordChange '' Abc 1''])) '' ''"
    by blast
  from a b c show ?thesis by blast
qed

section \<open>Signup submission\<close>

lemma handleSubmit_mismatch:
  "password (form v) \<noteq> confirmPassword (form v) \<Longrightarrow>
   handleSubmit signup v = v\<lparr>error := ''Passwords don't match!''\<rparr>"
  by (simp add: handleSubmit_def Let_def)

lemma handleSubmit_no_consent:
  "password (form v) = confirmPassword (form v) \<Longrightarrow> \<not> agreeToTerms (form v) \<Longrightarrow>
   handleSubmit signup v = v\<lparr>error := ''Please agree to the terms and conditions''\<rparr>"
  by (simp add: handleSubmit_def Let_def)

lemma handleSubmit_calls:
  "password (form v) = confirmPassword (form v) \<Longrightarrow> agreeToTerms (form v) \<Longrightarrow>
   signup_calls (handleSubmit signup v) =
     signup_calls v @
       [(trim (firstName (form v) @ '' '' @ lastName (form v)), email (form v),
         password (form v))]"
  by (simp add: handleSubmit_def Let_def split: signup_outcome.split)

lemma handleSubmit_rejected:
  "\<not> blocked (form v) \<Longrightarrow> m \<noteq> [] \<Longrightarrow>
   signup (signup_name (form v)) (email (form v)) (password (form v)) = Rejects (Some m) \<Longrightarrow>
   handleSubmit signup v =
     v\<lparr>error := m, isLoading := False,
       signup_calls := signup_calls v @
         [(signup_name (form v), email (form v), password (form v))]\<rparr>"
  unfolding blocked_def signup_name_def
  by (simp add: handleSubmit_def Let_def message_or_default_def)

text \<open>
  Claim C7. Submission is blocked exactly when the confirmation differs from the password
  or the consent flag is unset: then \<open>handleSubmit\<close> only sets its inline error and the
  backend is not called; otherwise the backend is called once. When the backend rejects with
  a message, that message is the error shown, nothing is stored, there is no navigation and
  the loading flag is cleared.
\<close>

theorem handleSubmit_blocks_and_reports:
  "(blocked (form v) \<longrightarrow>
      signup_calls (handleSubmit signup v) = signup_calls v \<and>
      error (handleSubmit signup v) =
        (if password (form v) \<noteq> confirmPassword (form v) then ''Passwords don't match!''
         else ''Please agree to the terms and conditions'') \<and>
      handleSubmit signup v = v\<lparr>error := error (handleSubmit signup v)\<rparr>) \<and>
   (\<not> blocked (form v) \<longrightarrow>
      signup_calls (handleSubmit signup v) =
        signup_calls v @ [(signup_name (form v), email (form v), password (form v))]) \<and>
   (\<not> blocked (form v) \<and> m \<noteq> [] \<and>
    signup (signup_name (form v)) (email (form v)) (password (form v)) = Rejects (Some m) \<longrightarrow>
      error (handleSubmit signup v) = m \<and>
      navigated (handleSubmit signup v) = navigated v \<and>
      localStorage (handleSubmit signup v) = localStorage v \<and>
      form (handleSubmit signup v) = form v \<and>
      \<not> isLoading (handleSubmit signup v))"
proof (intro conjI impI)
  assume b: "blocked (form v)"
  show "signup_calls (handleSubmit signup v) = signup_calls v"
    using b by (cases "password (form v) = confirmPassword (form v)")
      (simp_all add: blocked_def handleSubmit_mismatch handleSubmit_no_consent)
  show e: "error (handleSubmit signup v) =
        (if password (form v) \<noteq> confirmPassword (form v) then ''Passwords don't match!''
         else ''Please agree to the terms and conditions'')"
    using b by (cases "password (form v) = confirmPassword (form v)")
      (simp_all add: blocked_def handleSubmit_mismatch handleSubmit_no_consent)
  show "handleSubmit signup v = v\<lparr>error := error (handleSubmit signup v)\<rparr>"
    using b by (cases "password (form v) = confirmPassword (form v)")
      (simp_all add: blocked_def handleSubmit_mismatch handleSubmit_no_consent)
next
  assume "\<not> blocked (form v)"
  then show "signup_calls (handleSubmit signup v) =
        signup_calls v @ [(signup_name (form v), email (form v), password (form v))]"
    by (simp add: blocked_def signup_name_def handleSubmit_calls)
next
  assume a: "\<not> blocked (form v) \<and> m \<noteq> [] \<and>
    signup (signup_name (form v)) (email (form v)) (password (form v)) = Rejects (Some m)"
  then have r: "handleSubmit signup v =
     v\<lparr>error := m, isLoading := False,
       signup_calls := signup_calls v @
         [(signup_name (form v), email (form v), password (form v))]\<rparr>"
    by (intro handleSubmit_rejected) simp_all
  show "error (handleSubmit signup v) = m" by (simp add: r)
  show "navigated (handleSubmit signup v) = navigated v" by (simp add: r)
  show "localStorage (handleSubmit signup v) = localStorage v" by (simp add: r)
  show "form (handleSubmit signup v) = form v" by (simp add: r)
  show "\<not> isLoading (handleSubmit signup v)" by (simp add: r)
qed

theorem handleSubmit_blocks_and_reports_witness:
  "\<not> blocked (form example_view) \<and>
   error (handleSubmit email_in_use example_view) = ''Email already in use'' \<and>
   navigated (handleSubmit email_in_use example_view) = None \<and>
   \<not> isLoading (handleSubmit email_in_use example_view) \<and>
   blocked (form (example_view\<lparr>form := (form example_view)\<lparr>agreeToTerms := False\<rparr>\<rparr>)) \<and>
   signup_calls (handleSubmit email_in_use
     (example_view\<lparr>form := (form example_view)\<lparr>agreeToTerms := False\<rparr>\<rparr>)) = []"
proof -
  have a: "\<not> blocked (form example_view)"
    by (simp add: blocked_def example_view_def)
  have b: "blocked (form (example_view\<lparr>form := (form example_view)\<lparr>agreeToTerms := False\<rparr>\<rparr>))"
    by (simp add: blocked_def example_view_def)
  have c: "navigated example_view = None"
    "signup_calls (example_view\<lparr>form := (form example_view)\<lparr>agreeToTerms := False\<rparr>\<rparr>) = []"
    by (simp_all add: example_view_def initial_signup_view_def)
  from a b c
    handleSubmit_blocks_and_reports
      [where v = example_view and m = "''Email already in use''" and signup = email_in_use]
    handleSubmit_blocks_and_reports
      [where v = "example_view\<lparr>form := (form example_view)\<lparr>agreeToTerms := False\<rparr>\<rparr>"
         and signup = email_in_use]
  show ?thesis by (simp add: email_in_use_def)
qed

section \<open>Repository statistics\<close>

lemma or_zero_eq: "or_zero count = count_or_default count"
  by (simp add: or_zero_def count_or_default_def split: option.split)

text \<open>
  Claim C8. The repository counters start at zero and \<open>fetchRepoStats\<close> completes on
  every outcome of the fetch. A network error, a response that is not OK, a body that cannot
  be read: each leaves the counters as they were, and what was thrown is only logged. On
  success each counter is the count of the response, or zero where the count is absent.
\<close>

theorem fetchRepoStats_degrades_to_defaults:
  "stats initial_contribute_view = \<lparr>stars = 0, forks = 0, issues = 0, contributors = 0\<rparr> \<and>
   (\<exists>v'. fetchRepoStats outcome v = Inr v') \<and>
   fetchRepoStats Fetch_throws v = Inr (v\<lparr>console_error := console_error v @ [NetworkError]\<rparr>) \<and>
   fetchRepoStats (Response False body) v = Inr v \<and>
   fetchRepoStats (Response True Json_throws) v =
     Inr (v\<lparr>console_error := console_error v @ [SyntaxError]\<rparr>) \<and>
   (\<exists>v'. fetchRepoStats (Response True Json_null) v = Inr v' \<and> stats v' = stats v \<and>
         console_error v' = console_error v @ [TypeError]) \<and>
   (\<exists>v'. fetchRepoStats (Response True (Json_object data)) v = Inr v' \<and>
         console_error v' = console_error v \<and>
         stats v' =
           \<lparr>stars = count_or_default (stargazers_count data),
            forks = count_or_default (forks_count data),
            issues = count_or_default (open_issues_count data),
            contributors = 0\<rparr>)"
proof (intro conjI)
  show "stats initial_contribute_view = \<lparr>stars = 0, forks = 0, issues = 0, contributors = 0\<rparr>"
    by (simp add: initial_contribute_view_def)
  show "\<exists>v'. fetchRepoStats outcome v = Inr v'"
    by (simp add: fetchRepoStats_def split: sum.split prod.split)
  show "fetchRepoStats Fetch_throws v = Inr (v\<lparr>console_error := console_error v @ [NetworkError]\<rparr>)"
    by (simp add: fetchRepoStats_def fetchRepoStats_try_def)
  show "fetchRepoStats (Response False body) v = Inr v"
    by (simp add: fetchRepoStats_def fetchRepoStats_try_def)
  show "fetchRepoStats (Response True Json_throws) v =
     Inr (v\<lparr>console_error := console_error v @ [SyntaxError]\<rparr>)"
    by (simp add: fetchRepoStats_def fetchRepoStats_try_def)
  show "\<exists>v'. fetchRepoStats (Response True Json_null) v = Inr v' \<and> stats v' = stats v \<and>
         console_error v' = console_error v @ [TypeError]"
    by (simp add: fetchRepoStats_def fetchRepoStats_try_def)
  show "\<exists>v'. fetchRepoStats (Response True (Json_object data)) v = Inr v' \<and>
         console_error v' = console_error v \<and>
         stats v' =
           \<lparr>stars = count_or_default (stargazers_count data),
            forks = count_or_default (forks_count data),
            issues = count_or_default (open_issues_count data),
            contributors = 0\<rparr>"
    by (simp add: fetchRepoStats_def fetchRepoStats_try_def or_zero_eq)
qed

theorem fetchRepoStats_degrades_to_defaults_witness:
  "(\<exists>v'. fetchRepoStats
      (Response True
        (Json_object \<lparr>stargazers_count = Some 42, forks_count = None, open_issues_count = None\<rparr>))
      initial_contribute_view = Inr v' \<and>
      stats v' = \<lparr>stars = 42, forks = 0, issues = 0, contributors = 0\<rparr>) \<and>
   (\<exists>v'. fetchRepoStats Fetch_throws initial_contribute_view = Inr v' \<and>
      stats v' = \<lparr>stars = 0, forks = 0, issues = 0, contributors = 0\<rparr>)"
  using fetchRepoStats_degrades_to_defaults
    [where v = initial_contribute_view
       and data = "\<lparr>stargazers_count = Some 42, forks_count = None, open_issues_count = None\<rparr>"]
  by (auto simp: count_or_default_def)

section \<open>Interaction counters\<close>

lemma counters_le_refl: "counters_le v v"
  by (simp add: counters_le_def)

lemma counters_le_trans: "counters_le u v \<Longrightarrow> counters_le v w \<Longrightarrow> counters_le u w"
  by (auto simp: counters_le_def)

lemma filter_effect_le: "counters_le v (filter_effect v)"
  by (simp add: counters_le_def filter_effect_def Let_def)

lemma after_render_le: "counters_le v (after_render before v)"
  by (simp add: after_render_def filter_effect_le counters_le_refl)

lemma blog_handler_le: "counters_le v (blog_handler ev v)"
  by (cases ev)
    (simp_all add: counters_le_def handleSearch_def handleCategorySelect_def
      trackPostInteraction_def load_posts_def Let_def)

lemma blog_step_le: "counters_le v (blog_step ev v)"
  unfolding blog_step_def
  by (rule counters_le_trans [OF blog_handler_le after_render_le])

lemma fold_blog_step_le: "counters_le v (fold blog_step evs v)"
proof (induction evs arbitrary: v)
  case Nil
  show ?case by (simp add: counters_le_refl)
next
  case (Cons ev evs)
  have "counters_le v (blog_step ev v)" by (rule blog_step_le)
  moreover have "counters_le (blog_step ev v) (fold blog_step evs (blog_step ev v))"
    by (rule Cons.IH)
  ultimately show ?case
    by (auto intro: counters_le_trans)
qed

lemma blog_after_append: "blog_after (evs @ evs') = fold blog_step evs' (blog_after evs)"
  by (simp add: blog_after_def)

lemma first_render: "filter_effect blog_mount = blog_mount"
  by (simp add: filter_effect_def blog_mount_def)

lemma counters_nonneg: "\<forall>n \<in> set (counters (blog_after evs)). 0 \<le> n"
proof -
  have "counters_le blog_mount (blog_after evs)"
    unfolding blog_after_def first_render by (rule fold_blog_step_le)
  then show ?thesis
    by (simp add: counters_le_def counters_def blog_mount_def)
qed

lemma blog_step_category:
  "\<not> blogLoading v \<Longrightarrow> cat \<noteq> selectedCategory v \<Longrightarrow>
   counters (blog_step (CategorySelect cat) v) =
     [searchOperations (metrics v), filterOperations (metrics v) + 1,
      interactions (metrics v) + 1]"
  by (simp add: blog_step_def after_render_def filter_deps_def filter_effect_def
      handleCategorySelect_def counters_def Let_def)

lemma blog_step_search:
  "\<not> blogLoading v \<Longrightarrow> term \<noteq> searchTerm v \<Longrightarrow>
   counters (blog_step (Search term) v) =
     [searchOperations (metrics v) + 1, filterOperations (metrics v) + 1,
      interactions (metrics v) + 1]"
  by (simp add: blog_step_def after_render_def filter_deps_def filter_effect_def
      handleSearch_def counters_def Let_def)

text \<open>
  Claim C9. The counters are zero at mount. A search adds one to the search and interaction
  counters, a category selection and the opening of a post add one to the interaction
  counter, and the filter effect adds one to the filter counter once the posts are loaded,
  so that a search or a category selection that changes the filter then counts as one
  filter operation as well.
  No step decreases a counter, so along every sequence of events the counters never
  decrease and are never negative.
\<close>

theorem interaction_counters_monotone:
  "counters (blog_after []) = [0, 0, 0] \<and>
   counters (handleSearch query v) =
     [searchOperations (metrics v) + 1, filterOperations (metrics v), interactions (metrics v) + 1] \<and>
   counters (handleCategorySelect cat v) =
     [searchOperations (metrics v), filterOperations (metrics v), interactions (metrics v) + 1] \<and>
   counters (trackPostInteraction postId action v) =
     [searchOperations (metrics v), filterOperations (metrics v), interactions (metrics v) + 1] \<and>
   counters (filter_effect v) =
     [searchOperations (metrics v),
      filterOperations (metrics v) + (if blogLoading v then 0 else 1),
      interactions (metrics v)] \<and>
   (\<not> blogLoading v \<and> query \<noteq> searchTerm v \<longrightarrow>
      counters (blog_step (Search query) v) =
        [searchOperations (metrics v) + 1, filterOperations (metrics v) + 1,
         interactions (metrics v) + 1]) \<and>
   (\<not> blogLoading v \<and> cat \<noteq> selectedCategory v \<longrightarrow>
      counters (blog_step (CategorySelect cat) v) =
        [searchOperations (metrics v), filterOperations (metrics v) + 1,
         interactions (metrics v) + 1]) \<and>
   counters_le v (blog_step ev v) \<and>
   counters_le (blog_after evs) (blog_after (evs @ evs')) \<and>
   (\<forall>n \<in> set (counters (blog_after evs)). 0 \<le> n)"
proof (intro conjI)
  show "counters (blog_after []) = [0, 0, 0]"
    by (simp add: blog_after_def counters_def filter_effect_def blog_mount_def)
  show "counters (handleSearch query v) =
     [searchOperations (metrics v) + 1, filterOperations (metrics v), interactions (metrics v) + 1]"
    by (simp add: counters_def handleSearch_def Let_def)
  show "counters (handleCategorySelect cat v) =
     [searchOperations (metrics v), filterOperations (metrics v), interactions (metrics v) + 1]"
    by (simp add: counters_def handleCategorySelect_def Let_def)
  show "counters (trackPostInteraction postId action v) =
     [searchOperations (metrics v), filterOperations (metrics v), interactions (metrics v) + 1]"
    by (simp add: counters_def trackPostInteraction_def Let_def)
  show "counters (filter_effect v) =
     [searchOperations (metrics v),
      filterOperations (metrics v) + (if blogLoading v then 0 else 1),
      interactions (metrics v)]"
    by (simp add: counters_def filter_effect_def Let_def)
  show "\<not> blogLoading v \<and> query \<noteq> searchTerm v \<longrightarrow>
      counters (blog_step (Search query) v) =
        [searchOperations (metrics v) + 1, filterOperations (metrics v) + 1,
         interactions (metrics v) + 1]"
    by (simp add: blog_step_search)
  show "\<not> blogLoading v \<and> cat \<noteq> selectedCategory v \<longrightarrow>
      counters (blog_step (CategorySelect cat) v) =
        [searchOperations (metrics v), filterOperations (metrics v) + 1,
         interactions (metrics v) + 1]"
    by (simp add: blog_step_category)
  show "counters_le v (blog_step ev v)"
    by (rule blog_step_le)
  show "counters_le (blog_after evs) (blog_after (evs @ evs'))"
    unfolding blog_after_append by (rule fold_blog_step_le)
  show "\<forall>n \<in> set (counters (blog_after evs)). 0 \<le> n"
    by (rule counters_nonneg)
qed

theorem interaction_counters_monotone_witness:
  "\<not> blogLoading (blog_after [PostsLoaded example_posts 300]) \<and>
   ''Sorting'' \<noteq> selectedCategory (blog_after [PostsLoaded example_posts 300]) \<and>
   ''quick'' \<noteq> searchTerm (blog_after [PostsLoaded example_posts 300]) \<and>
   counters (blog_after [PostsLoaded example_posts 300]) = [0, 1, 0] \<and>
   counters (blog_step (CategorySelect ''Sorting'') (blog_after [PostsLoaded example_posts 300])) =
     [0, 2, 1] \<and>
   counters (blog_step (Search ''quick'') (blog_after [PostsLoaded example_posts 300])) =
     [1, 2, 1] \<and>
   counters_le (blog_after [PostsLoaded example_posts 300])
     (blog_after ([PostsLoaded example_posts 300] @ [Search ''quick'', PostInteraction 2 ''read_more'']))"
proof -
  have a: "\<not> blogLoading (blog_after [PostsLoaded example_posts 300])"
    "''Sorting'' \<noteq> selectedCategory (blog_after [PostsLoaded example_posts 300])"
    "''quick'' \<noteq> searchTerm (blog_after [PostsLoaded example_posts 300])"
    by code_simp+
  have b: "counters (blog_after [PostsLoaded example_posts 300]) = [0, 1, 0]"
    by code_simp
  then have c: "searchOperations (metrics (blog_after [PostsLoaded example_posts 300])) = 0"
    "filterOperations (metrics (blog_after [PostsLoaded example_posts 300])) = 1"
    "interactions (metrics (blog_after [PostsLoaded example_posts 300])) = 0"
    by (simp_all add: counters_def)
  note t = interaction_counters_monotone
      [where v = "blog_after [PostsLoaded example_posts 300]" and cat = "''Sorting''"
         and query = "''quick''" and evs = "[PostsLoaded example_posts 300]"
         and evs' = "[Search ''quick'', PostInteraction 2 ''read_more'']"]
  from a t have "counters (blog_step (CategorySelect ''Sorting'')
      (blog_after [PostsLoaded example_posts 300])) =
     [searchOperations (metrics (blog_after [PostsLoaded example_posts 300])),
      filterOperations (metrics (blog_after [PostsLoaded example_posts 300])) + 1,
      interactions (metrics (blog_after [PostsLoaded example_posts 300])) + 1]"
    by blast
  then have d: "counters (blog_step (CategorySelect ''Sorting'')
      (blog_after [PostsLoaded example_posts 300])) = [0, 2, 1]"
    by (simp only: c) simp
  from a t have "counters (blog_step (Search ''quick'')
      (blog_after [PostsLoaded example_posts 300])) =
     [searchOperations (metrics (blog_after [PostsLoaded example_posts 300])) + 1,
      filterOperations (metrics (blog_after [PostsLoaded example_posts 300])) + 1,
      interactions (metrics (blog_after [PostsLoaded example_posts 300])) + 1]"
    by blast
  then have e: "counters (blog_step (Search ''quick'')
      (blog_after [PostsLoaded example_posts 300])) = [1, 2, 1]"
    by (simp only: c) simp
  from t have f: "counters_le (blog_after [PostsLoaded example_posts 300])
     (blog_after ([PostsLoaded example_posts 300] @
        [Search ''quick'', PostInteraction 2 ''read_more'']))"
    by blast
  from a b d e f show ?thesis by blast
qed

section \<open>The pagination window\<close>

lemma page_nonneg:
  assumes "0 \<le> i"
  shows "page n items i = take n (drop (nat i * n) items)"
proof -
  obtain k where k: "i = int k" using assms by (metis nonneg_int_cases)
  have a: "slice_index (length items) (int k * int n) = min (k * n) (length items)"
    by (simp add: slice_index_def flip: of_nat_mult)
  have b: "slice_index (length items) ((int k + 1) * int n) = min (k * n + n) (length items)"
  proof -
    have "(int k + 1) * int n = int (k * n + n)" by (simp add: algebra_simps)
    then show ?thesis by (simp add: slice_index_def del: of_nat_add of_nat_mult)
  qed
  show ?thesis
  proof (cases "k * n \<le> length items")
    case True
    then have "take (min (k * n + n) (length items) - k * n) (drop (k * n) items) =
        take n (drop (k * n) items)"
      by (cases "k * n + n \<le> length items") (simp_all add: min_def)
    with True show ?thesis
      by (simp add: page_def slice_def Let_def k a b min_def)
  next
    case False
    then show ?thesis
      by (simp add: page_def slice_def Let_def k a b min_def)
  qed
qed

lemma slice_index_step:
  "int (slice_index len (a + int n)) \<le> int (slice_index len a) + int n"
  by (auto simp: slice_index_def)

lemma length_page_le: "length (page n items i) \<le> n"
proof -
  have "(i + 1) * int n = i * int n + int n" by (simp add: algebra_simps)
  then have "int (slice_index (length items) ((i + 1) * int n)) \<le>
      int (slice_index (length items) (i * int n)) + int n"
    using slice_index_step [of "length items" "i * int n" n] by simp
  then show ?thesis
    by (simp add: page_def slice_def Let_def)
qed

lemma concat_pages_take:
  "concat (map (\<lambda>k. take n (drop (k * n) items)) [0..<m]) = take (m * n) items"
proof (induction m)
  case 0
  show ?case by simp
next
  case (Suc m)
  have "take (m * n + n) items = take (m * n) items @ take n (drop (m * n) items)"
    by (rule take_add)
  with Suc show ?case by (simp add: add.commute)
qed

lemma totalPages_covers: "0 < n \<Longrightarrow> length items \<le> totalPages n items * n"
proof -
  assume n: "0 < n"
  define len where "len = length items"
  have "len + n - 1 = (len + n - 1) div n * n + (len + n - 1) mod n"
    by simp
  moreover have "(len + n - 1) mod n < n" using n by simp
  ultimately have "len \<le> (len + n - 1) div n * n" by linarith
  then show ?thesis by (simp add: totalPages_def len_def)
qed

lemma totalPages_ceiling:
  assumes "0 < n"
  shows "int (totalPages n items) = \<lceil>real (length items) / real n\<rceil>"
proof -
  define len where "len = length items"
  define t where "t = (len + n - 1) div n"
  have le: "len \<le> t * n"
    using totalPages_covers [OF assms, of items] by (simp add: totalPages_def len_def t_def)
  have "t * n \<le> len + n - 1"
    unfolding t_def by (rule div_times_less_eq_dividend)
  then have lt: "t * n < len + n" using assms by linarith
  have "real len / real n \<le> real t"
    using le assms by (simp add: divide_le_eq flip: of_nat_mult)
  moreover have "real t - 1 < real len / real n"
  proof -
    have "real (t * n) < real (len + n)" using lt by (simp only: of_nat_less_iff)
    then have "(real t - 1) * real n < real len" by (simp add: algebra_simps)
    then show ?thesis using assms by (simp add: less_divide_eq)
  qed
  ultimately have "\<lceil>real len / real n\<rceil> = int t"
    by (intro ceiling_unique) simp_all
  then show ?thesis by (simp add: totalPages_def len_def t_def)
qed

lemma concat_pages:
  assumes "0 < n"
  shows "concat (map (\<lambda>k. page n items (int k)) [0..<totalPages n items]) = items"
proof -
  have "concat (map (\<lambda>k. page n items (int k)) [0..<totalPages n items]) =
      take (totalPages n items * n) items"
    by (simp add: page_nonneg concat_pages_take)
  with totalPages_covers [OF assms, of items] show ?thesis by simp
qed

lemma page_beyond:
  assumes "0 < n" and "int (totalPages n items) \<le> i"
  shows "page n items i = []"
proof -
  have i: "0 \<le> i" using assms(2) by linarith
  have "totalPages n items \<le> nat i" using assms(2) by linarith
  then have "totalPages n items * n \<le> nat i * n" by simp
  with totalPages_covers [OF assms(1), of items] have "length items \<le> nat i * n"
    by linarith
  then show ?thesis by (simp add: page_nonneg [OF i])
qed

lemma totalTopicPages_pos: "0 < totalTopicPages topics"
  by (simp add: totalTopicPages_def totalPages_def allTopics_def CARDS_PER_PAGE_def)

lemma nav_step_in_range:
  "0 \<le> p \<Longrightarrow> p < int (totalTopicPages topics) \<Longrightarrow>
   0 \<le> nav_step topics ev p \<and> nav_step topics ev p < int (totalTopicPages topics)"
  by (cases ev) (auto simp: prev_enabled_def next_enabled_def handleTopicNav_def)

lemma fold_nav_step_in_range:
  "0 \<le> p \<Longrightarrow> p < int (totalTopicPages topics) \<Longrightarrow>
   0 \<le> fold (nav_step topics) evs p \<and> fold (nav_step topics) evs p < int (totalTopicPages topics)"
proof (induction evs arbitrary: p)
  case Nil
  then show ?case by simp
next
  case (Cons ev evs)
  from nav_step_in_range [OF Cons.prems, of ev]
  show ?case by (simp add: Cons.IH)
qed

text \<open>
  Claim C3. A page holds at most \<open>n\<close> items, and for a positive page size the pages
  with indices \<open>0\<close> up to \<open>ceil(length / n) - 1\<close>, one after the other, are the
  original list; so are the pages of the topic carousel. Seven items in pages of three give
  pages of sizes 3, 3 and 1.
\<close>

theorem pages_partition_items:
  "length (page n items i) \<le> n \<and>
   (0 < n \<longrightarrow>
      int (totalPages n items) = \<lceil>real (length items) / real n\<rceil> \<and>
      concat (map (\<lambda>k. page n items (int k)) [0..<totalPages n items]) = items) \<and>
   concat (map (\<lambda>k. displayedTopics topics (int k)) [0..<totalTopicPages topics]) =
     allTopics topics \<and>
   (length items = 7 \<longrightarrow>
      map (\<lambda>k. length (page 3 items (int k))) [0..<totalPages 3 items] = [3, 3, 1])"
proof (intro conjI impI)
  show "length (page n items i) \<le> n" by (rule length_page_le)
next
  assume "0 < n"
  then show "int (totalPages n items) = \<lceil>real (length items) / real n\<rceil>"
    by (rule totalPages_ceiling)
next
  assume "0 < n"
  then show "concat (map (\<lambda>k. page n items (int k)) [0..<totalPages n items]) = items"
    by (rule concat_pages)
next
  show "concat (map (\<lambda>k. displayedTopics topics (int k)) [0..<totalTopicPages topics]) =
     allTopics topics"
    unfolding displayedTopics_def totalTopicPages_def
    by (rule concat_pages) (simp add: CARDS_PER_PAGE_def)
next
  assume l: "length items = 7"
  have t: "totalPages 3 items = 3" by (simp add: totalPages_def l)
  have u: "[0..<3] = [0, 1, 2]" by (simp add: upt_rec)
  show "map (\<lambda>k. length (page 3 items (int k))) [0..<totalPages 3 items] = [3, 3, 1]"
    by (simp add: t u page_nonneg l)
qed

theorem pages_partition_items_witness:
  "0 < (3::nat) \<and> length [1, 2, 3, 4, 5, 6, 7 :: nat] = 7 \<and>
   concat (map (\<lambda>k. page 3 [1, 2, 3, 4, 5, 6, 7 :: nat] (int k))
     [0..<totalPages 3 [1, 2, 3, 4, 5, 6, 7 :: nat]]) = [1, 2, 3, 4, 5, 6, 7] \<and>
   map (\<lambda>k. length (page 3 [1, 2, 3, 4, 5, 6, 7 :: nat] (int k)))
     [0..<totalPages 3 [1, 2, 3, 4, 5, 6, 7 :: nat]] = [3, 3, 1]"
proof -
  have a: "0 < (3::nat)" "length [1, 2, 3, 4, 5, 6, 7 :: nat] = 7"
    by simp_all
  note t = pages_partition_items
      [where n = 3 and items = "[1, 2, 3, 4, 5, 6, 7 :: nat]" and i = 0 and topics = "[]"]
  from a t show ?thesis by blast
qed

text \<open>
  Claim C4. After every sequence of clicks on the navigation buttons, starting from page 0,
  the page index is at least 0 and below the number of pages, which is
  \<open>ceil(length / CARDS_PER_PAGE)\<close> of the cards.
\<close>

theorem topicPage_in_range:
  "0 \<le> topicPage_after topics evs \<and>
   topicPage_after topics evs < int (totalTopicPages topics) \<and>
   int (totalTopicPages topics) =
     \<lceil>real (length (allTopics topics)) / real CARDS_PER_PAGE\<rceil>"
proof -
  have "0 \<le> fold (nav_step topics) evs 0 \<and>
      fold (nav_step topics) evs 0 < int (totalTopicPages topics)"
    by (rule fold_nav_step_in_range) (simp_all add: totalTopicPages_pos)
  moreover have "int (totalTopicPages topics) =
     \<lceil>real (length (allTopics topics)) / real CARDS_PER_PAGE\<rceil>"
    unfolding totalTopicPages_def
    by (rule totalPages_ceiling) (simp add: CARDS_PER_PAGE_def)
  ultimately show ?thesis by (simp add: topicPage_after_def)
qed

theorem topicPage_in_range_witness:
  "topicPage_after six_topics [ClickNext, ClickNext, ClickNext, ClickPrevious] = 1 \<and>
   (1::int) < int (totalTopicPages six_topics)"
proof -
  have a: "topicPage_after six_topics [ClickNext, ClickNext, ClickNext, ClickPrevious] = 1"
    by code_simp
  note t = topicPage_in_range [of six_topics "[ClickNext, ClickNext, ClickNext, ClickPrevious]"]
  from t have "topicPage_after six_topics [ClickNext, ClickNext, ClickNext, ClickPrevious]
      < int (totalTopicPages six_topics)"
    by blast
  with a show ?thesis by (simp only: simp_thms)
qed

text \<open>
  Claim C2. (as amended) A page index at or beyond the number of pages is not clamped: the
  window is then empty, for every list and positive page size, and nothing is thrown. A
  click on the next button at or beyond the last page, or on the previous button at page 0,
  leaves the page index as it is, since the button is disabled there.
\<close>

theorem out_of_range_page_is_empty:
  "(0 < n \<and> int (totalPages n items) \<le> i \<longrightarrow> page n items i = []) \<and>
   (int (totalTopicPages topics) \<le> topicPage \<longrightarrow> displayedTopics topics topicPage = []) \<and>
   (int (totalTopicPages topics) - 1 \<le> topicPage \<longrightarrow>
      nav_step topics ClickNext topicPage = topicPage) \<and>
   nav_step topics ClickPrevious 0 = 0"
proof (intro conjI impI)
  assume "0 < n \<and> int (totalPages n items) \<le> i"
  then show "page n items i = []" by (simp add: page_beyond)
next
  assume "int (totalTopicPages topics) \<le> topicPage"
  then show "displayedTopics topics topicPage = []"
    unfolding displayedTopics_def totalTopicPages_def
    by (intro page_beyond) (simp_all add: CARDS_PER_PAGE_def)
next
  assume "int (totalTopicPages topics) - 1 \<le> topicPage"
  then show "nav_step topics ClickNext topicPage = topicPage"
    by (simp add: next_enabled_def)
next
  show "nav_step topics ClickPrevious 0 = 0"
    by (simp add: prev_enabled_def)
qed

theorem out_of_range_page_is_empty_witness:
  "0 < (3::nat) \<and> int (totalPages 3 [1, 2, 3, 4, 5, 6, 7 :: nat]) \<le> 5 \<and>
   page 3 [1, 2, 3, 4, 5, 6, 7 :: nat] 5 = [] \<and>
   int (totalTopicPages six_topics) - 1 \<le> 2 \<and> nav_step six_topics ClickNext 2 = 2 \<and>
   displayedTopics six_topics 5 = []"
proof -
  have a: "int (totalTopicPages six_topics) - 1 \<le> 2" "int (totalTopicPages six_topics) \<le> 5"
    by code_simp+
  have b: "0 < (3::nat)" "int (totalPages 3 [1, 2, 3, 4, 5, 6, 7 :: nat]) \<le> 5"
    by code_simp+
  note t = out_of_range_page_is_empty
      [where topics = six_topics and n = 3 and items = "[1, 2, 3, 4, 5, 6, 7 :: nat]" and i = 5]
  from b t [of 5] have c: "page 3 [1, 2, 3, 4, 5, 6, 7 :: nat] 5 = []" by blast
  from a t [of 2] have d: "nav_step six_topics ClickNext 2 = 2" by blast
  from a t [of 5] have e: "displayedTopics six_topics 5 = []" by blast
  from a b c d e show ?thesis by blast
qed

text \<open>
  Claim C2. (as stated, refuted) With seven cards in pages of three, page index 5 shows no
  card, while the last valid page, index 2, shows the seventh card.
\<close>

theorem out_of_range_page_counterexample:
  "length (allTopics six_topics) = 7 \<and>
   displayedTopics six_topics 5 = [] \<and>
   displayedTopics six_topics (int (totalTopicPages six_topics) - 1) =
     [\<lparr>topic_id = ''all'', topic_name = ''All Topics'',
       topic_description = ''Questions from every category.''\<rparr>]"
  by code_simp

section \<open>The post filter\<close>








end
